theory Spec2Isabelle
  imports Complex_Main
begin

section \<open>Microtuning: inferring scale size and period, extending the frequency table\<close>

text \<open>
  The development embeds \<^verbatim>\<open>src/tuning.cpp\<close>. The frequency buffer
  \<^verbatim>\<open>double *frequency\<close> is a list of numbers read with \<open>xs ! nat i\<close> and written
  with \<open>xs[nat i := v]\<close>; the C \<^verbatim>\<open>int\<close> variables (\<open>period\<close>, \<open>i\<close>, \<open>j\<close>,
  \<open>scaleSize\<close>, \<open>length\<close>) are integers, none of which leaves the range of a 32-bit
  \<^verbatim>\<open>int\<close> (every loop counter is bounded by 127, 101 or \<open>length\<close>).

  A \<^verbatim>\<open>double\<close> is idealised as a real number: multiplication and subtraction are
  exact, the literals \<^verbatim>\<open>10.0\<close> and \<^verbatim>\<open>1e-6\<close> are the reals \<open>10\<close> and
  \<open>1 / 10 ^ 6\<close>, and there is no NaN and no infinity. Rounding is therefore outside
  the model.

  The C code indexes the buffer without a bounds check; the caller owes a buffer of at
  least 128 entries to \<open>inferScaleSize\<close> and of at least \<open>length\<close> entries to
  \<open>extendFrequencies\<close> and \<open>getFrequencies\<close>. The theorems about the extended
  entries state this obligation as a hypothesis.

  The parameter \<^verbatim>\<open>length\<close> of the C functions is called \<open>len\<close> here.

  A failing \<^verbatim>\<open>assert\<close> is the error value \<open>AssertionFailed\<close> (the build that keeps
  assertions, without \<^verbatim>\<open>NDEBUG\<close>).
\<close>

subsection \<open>The search for the period\<close>

text \<open>
  The innermost loop \<^verbatim>\<open>for (j = i; j <= 126; j++)\<close>. \<open>Some (j - i)\<close> is the
  \<^verbatim>\<open>goto end\<close> with \<open>scaleSize = j - i\<close>; \<open>None\<close> is the loop running to its end.
\<close>

function matchLoop :: "real list \<Rightarrow> int \<Rightarrow> int \<Rightarrow> real \<Rightarrow> int \<Rightarrow> int option" where
  "matchLoop frequency period i target j =
     (if j \<le> 126 then
        if \<bar>frequency ! nat j - target\<bar> < 1 / 10 ^ 6 \<and>
           \<bar>frequency ! nat (j + 1) - real_of_int period * frequency ! nat (i + 1)\<bar> < 1 / 10 ^ 6
        then Some (j - i)
        else matchLoop frequency period i target (j + 1)
      else None)"
  by pat_completeness auto
termination
  by (relation "measure (\<lambda>(frequency, period, i, target, j). nat (127 - j))") auto

text \<open>The middle loop \<^verbatim>\<open>for (i = 0; i <= 126; i++)\<close> with its 10 Hz guard.\<close>

function baseLoop :: "real list \<Rightarrow> int \<Rightarrow> int \<Rightarrow> int option" where
  "baseLoop frequency period i =
     (if i \<le> 126 then
        if frequency ! nat i > 10 then
          (case matchLoop frequency period i (real_of_int period * frequency ! nat i) i of
             Some scaleSize \<Rightarrow> Some scaleSize
           | None \<Rightarrow> baseLoop frequency period (i + 1))
        else baseLoop frequency period (i + 1)
      else None)"
  by pat_completeness auto
termination
  by (relation "measure (\<lambda>(frequency, period, i). nat (127 - i))") auto

text \<open>
  The outer loop \<^verbatim>\<open>for (period = 2; period <= 100; period++)\<close>. The result is the
  pair \<open>(scaleSize, period)\<close> of the two variables when control reaches the label
  \<^verbatim>\<open>end\<close>: after a \<^verbatim>\<open>goto\<close> the matched \<open>scaleSize\<close> and the current \<open>period\<close>,
  after the loop ran to its end the initial \<open>scaleSize = 0\<close> and \<open>period = 101\<close>.
\<close>

function periodLoop :: "real list \<Rightarrow> int \<Rightarrow> int \<times> int" where
  "periodLoop frequency period =
     (if period \<le> 100 then
        (case baseLoop frequency period 0 of
           Some scaleSize \<Rightarrow> (scaleSize, period)
         | None \<Rightarrow> periodLoop frequency (period + 1))
      else (0, period))"
  by pat_completeness auto
termination
  by (relation "measure (\<lambda>(frequency, period). nat (101 - period))") auto

text \<open>\<open>inferScaleSize\<close>: the search, then the code after the label \<^verbatim>\<open>end\<close>.\<close>

definition inferScaleSize :: "real list \<Rightarrow> int \<times> int" where
  "inferScaleSize frequency =
     (case periodLoop frequency 2 of
        (scaleSize, period) \<Rightarrow>
          if scaleSize = 0 then (- 1, - 1) else (scaleSize, period))"

subsection \<open>Extending the table\<close>

datatype error = AssertionFailed

text \<open>The loop of the branch \<^verbatim>\<open>scaleSize > 0\<close>, from the counter \<open>i\<close> on.\<close>

function periodicFill :: "real list \<Rightarrow> int \<Rightarrow> int \<Rightarrow> int \<Rightarrow> int \<Rightarrow> real list" where
  "periodicFill frequency len scaleSize period i =
     (if i < len then
        periodicFill
          (frequency[nat i := real_of_int period * frequency ! nat (i - scaleSize)])
          len scaleSize period (i + 1)
      else frequency)"
  by pat_completeness auto
termination
  by (relation "measure (\<lambda>(frequency, len, scaleSize, period, i). nat (len - i))") auto

text \<open>The loop of the \<^verbatim>\<open>else\<close> branch.\<close>

function flatFill :: "real list \<Rightarrow> int \<Rightarrow> int \<Rightarrow> real list" where
  "flatFill frequency len i =
     (if i < len then flatFill (frequency[nat i := frequency ! 127]) len (i + 1)
      else frequency)"
  by pat_completeness auto
termination
  by (relation "measure (\<lambda>(frequency, len, i). nat (len - i))") auto

definition extendFrequencies :: "real list \<Rightarrow> int \<Rightarrow> error + real list" where
  "extendFrequencies frequency len =
     (case inferScaleSize frequency of
        (scaleSize, period) \<Rightarrow>
          if \<not> scaleSize \<le> 128 then Inl AssertionFailed
          else if scaleSize > 0 then Inr (periodicFill frequency len scaleSize period 128)
          else Inr (flatFill frequency len 128))"

subsection \<open>Sampling and the facade\<close>

text \<open>
  \<open>getMTSESPFrequencies\<close> fills the entries 0 to 127 from the MTS-ESP client. The
  client library is not part of the repository; \<open>noteToFrequency i\<close> stands for
  \<^verbatim>\<open>MTS_NoteToFrequency(client, i, 0)\<close>.
\<close>

function sampleLoop :: "(int \<Rightarrow> real) \<Rightarrow> real list \<Rightarrow> int \<Rightarrow> real list" where
  "sampleLoop noteToFrequency frequency i =
     (if i \<le> 127 then
        sampleLoop noteToFrequency (frequency[nat i := noteToFrequency i]) (i + 1)
      else frequency)"
  by pat_completeness auto
termination
  by (relation "measure (\<lambda>(noteToFrequency, frequency, i). nat (128 - i))") auto

definition getMTSESPFrequencies :: "(int \<Rightarrow> real) \<Rightarrow> real list \<Rightarrow> real list" where
  "getMTSESPFrequencies noteToFrequency frequency = sampleLoop noteToFrequency frequency 0"

definition getFrequencies :: "(int \<Rightarrow> real) \<Rightarrow> real list \<Rightarrow> int \<Rightarrow> error + real list" where
  "getFrequencies noteToFrequency frequency len =
     (if \<not> len \<ge> 128 then Inl AssertionFailed
      else extendFrequencies (getMTSESPFrequencies noteToFrequency frequency) len)"

subsection \<open>The search order, as the specification words it\<close>

text \<open>
  The specification describes the search as the first acceptance in a fixed order of
  candidates \<open>(p, i, j)\<close>: period ratios 2 to 100, bases 0 to 126 without those at
  most 10 Hz, matches from the base to 126. \<open>searchOrder\<close> lists the candidates in
  that order, \<open>accepted\<close> is the test of the two consecutive points, and
  \<open>firstAcceptance\<close> is the first accepted candidate.
\<close>

definition accepted :: "real list \<Rightarrow> int \<times> int \<times> int \<Rightarrow> bool" where
  "accepted table = (\<lambda>(p, i, j).
     \<bar>table ! nat j - real_of_int p * table ! nat i\<bar> < 1 / 10 ^ 6 \<and>
     \<bar>table ! nat (j + 1) - real_of_int p * table ! nat (i + 1)\<bar> < 1 / 10 ^ 6)"

definition searchOrder :: "real list \<Rightarrow> (int \<times> int \<times> int) list" where
  "searchOrder table =
     [(p, i, j). p \<leftarrow> [2..100], i \<leftarrow> [0..126], table ! nat i > 10, j \<leftarrow> [i..126]]"

definition firstAcceptance :: "real list \<Rightarrow> (int \<times> int \<times> int) option" where
  "firstAcceptance table = find (accepted table) (searchOrder table)"

subsection \<open>Sample buffers\<close>

text \<open>
  Two buffers of 130 entries: a table of 128 frequencies followed by two spare entries,
  zero as the arrays of the repository's tests are before the extension. \<open>octaveDemo\<close>
  repeats at the ratio 2 every 2 steps from its entry 124 on (the entries below are too
  low to serve as a base); \<open>flatDemo\<close> has no entry above 10 Hz.
\<close>

definition octaveDemo :: "real list" where
  "octaveDemo = replicate 124 1 @ [20, 30, 40, 60, 0, 0]"

definition flatDemo :: "real list" where
  "flatDemo = replicate 128 1 @ [0, 0]"




declare matchLoop.simps [simp del] baseLoop.simps [simp del] periodLoop.simps [simp del]
declare periodicFill.simps [simp del] flatFill.simps [simp del] sampleLoop.simps [simp del]

section \<open>Auxiliary facts\<close>

subsection \<open>The loops find the first accepted candidate\<close>

declare upto_rec_numeral [simp del]

lemma find_append:
  "find P (xs @ ys) = (case find P xs of None \<Rightarrow> find P ys | Some x \<Rightarrow> Some x)"
  by (induction xs) auto

lemma find_map: "find P (map f xs) = map_option f (find (\<lambda>x. P (f x)) xs)"
  by (induction xs) auto

lemma matchLoop_find:
  "matchLoop frequency period i (real_of_int period * frequency ! nat i) j =
     map_option (\<lambda>(p, i, j). j - i)
       (find (accepted frequency) (map (\<lambda>j. (period, i, j)) [j..126]))"
proof (induction frequency period i "real_of_int period * frequency ! nat i" j rule: matchLoop.induct)
  case (1 frequency period i j)
  show ?case
  proof (cases "j \<le> 126")
    case True
    then show ?thesis
      using 1 by (subst matchLoop.simps) (simp add: upto_rec1 [of j 126] accepted_def)
  next
    case False
    then show ?thesis by (subst matchLoop.simps) simp
  qed
qed

lemma baseLoop_find:
  "baseLoop frequency period i =
     map_option (\<lambda>(p, i, j). j - i)
       (find (accepted frequency)
         (concat (map (\<lambda>i. if frequency ! nat i > 10 then map (\<lambda>j. (period, i, j)) [i..126] else []) [i..126])))"
proof (induction frequency period i rule: baseLoop.induct)
  case (1 frequency period i)
  show ?case
  proof (cases "i \<le> 126")
    case True
    then show ?thesis
      using 1 by (subst baseLoop.simps) (simp add: upto_rec1 [of i 126] find_append matchLoop_find split: option.splits)
  next
    case False
    then show ?thesis by (subst baseLoop.simps) simp
  qed
qed

lemma find_SomeD: "find P xs = Some x \<Longrightarrow> x \<in> set xs \<and> P x"
  by (induction xs) (auto split: if_splits)

lemma find_block_period:
  assumes "find P (concat (map (\<lambda>i. if c i then map (\<lambda>j. (period, i, j)) (js i) else []) is)) = Some (a, b, d)"
  shows "a = period"
proof -
  from find_SomeD [OF assms]
  have "(a, b, d) \<in> set (concat (map (\<lambda>i. if c i then map (\<lambda>j. (period, i, j)) (js i) else []) is))"
    by simp
  then show ?thesis by (auto split: if_splits)
qed

lemma periodLoop_find:
  "periodLoop frequency period =
     (case find (accepted frequency)
        (concat (map (\<lambda>p. concat (map (\<lambda>i. if frequency ! nat i > 10 then map (\<lambda>j. (p, i, j)) [i..126] else []) [0..126])) [period..100])) of
        Some (p, i, j) \<Rightarrow> (j - i, p)
      | None \<Rightarrow> (0, max period 101))"
proof (induction frequency period rule: periodLoop.induct)
  case (1 frequency period)
  let ?block = "\<lambda>p. concat (map (\<lambda>i. if frequency ! nat i > 10 then map (\<lambda>j. (p, i, j)) [i..126] else []) [0..126])"
  show ?case
  proof (cases "period \<le> 100")
    case True
    then have split: "concat (map ?block [period..100]) = ?block period @ concat (map ?block [period + 1..100])"
      by (simp add: upto_rec1 [of period 100])
    have base: "baseLoop frequency period 0 = map_option (\<lambda>(p, i, j). j - i) (find (accepted frequency) (?block period))"
      by (rule baseLoop_find)
    show ?thesis
    proof (cases "find (accepted frequency) (?block period)")
      case None
      with base have "baseLoop frequency period 0 = None" by simp
      moreover from True have "max (period + 1) 101 = max period 101" by simp
      ultimately show ?thesis
        using True 1 None by (subst periodLoop.simps) (simp only: split find_append, simp)
    next
      case (Some c)
      obtain a b d where c: "c = (a, b, d)" by (cases c) auto
      from Some c have "find (accepted frequency) (?block period) = Some (a, b, d)" by simp
      then have "a = period" by (rule find_block_period)
      with Some c base have "baseLoop frequency period 0 = Some (d - b)" by simp
      with True Some c \<open>a = period\<close> show ?thesis
        by (subst periodLoop.simps) (simp only: split find_append, simp)
    qed
  next
    case False
    then show ?thesis by (subst periodLoop.simps) simp
  qed
qed

lemma searchOrder_set:
  "(p, i, j) \<in> set (searchOrder table) \<longleftrightarrow>
     2 \<le> p \<and> p \<le> 100 \<and> 0 \<le> i \<and> i \<le> j \<and> j \<le> 126 \<and> table ! nat i > 10"
  by (auto simp: searchOrder_def image_iff)

lemma self_deviation:
  assumes "frequency ! nat i > 10" and "2 \<le> period"
  shows "10 < \<bar>frequency ! nat i - real_of_int period * frequency ! nat i\<bar>"
proof -
  have "2 * frequency ! nat i \<le> real_of_int period * frequency ! nat i"
    using assms by (intro mult_right_mono) auto
  with assms(1) have "10 < real_of_int period * frequency ! nat i - frequency ! nat i"
    by linarith
  then show ?thesis by linarith
qed

lemma no_self_match:
  assumes "frequency ! nat i > 10" and "2 \<le> period"
  shows "\<not> \<bar>frequency ! nat i - real_of_int period * frequency ! nat i\<bar> < 1 / 10 ^ 6"
proof -
  have "(1::real) / 10 ^ 6 \<le> 10" by simp
  with self_deviation [OF assms] show ?thesis by linarith
qed

lemma firstAcceptance_Some:
  assumes "firstAcceptance table = Some (p, i, j)"
  shows "2 \<le> p \<and> p \<le> 100 \<and> 0 \<le> i \<and> i < j \<and> j \<le> 126 \<and> table ! nat i > 10 \<and> accepted table (p, i, j)"
proof -
  from assms have "find (accepted table) (searchOrder table) = Some (p, i, j)"
    by (simp add: firstAcceptance_def)
  from find_SomeD [OF this]
  have mem: "(p, i, j) \<in> set (searchOrder table)" and acc: "accepted table (p, i, j)"
    by simp_all
  from mem have r: "2 \<le> p" "p \<le> 100" "0 \<le> i" "i \<le> j" "j \<le> 126" "table ! nat i > 10"
    by (simp_all add: searchOrder_set)
  have "j \<noteq> i"
  proof
    assume "j = i"
    with acc have "\<bar>table ! nat i - real_of_int p * table ! nat i\<bar> < 1 / 10 ^ 6"
      by (simp add: accepted_def)
    with no_self_match [OF r(6) r(1)] show False by simp
  qed
  with r acc show ?thesis by simp
qed

lemma inferScaleSize_search:
  "inferScaleSize frequency =
     (case firstAcceptance frequency of
        None \<Rightarrow> (- 1, - 1)
      | Some (p, i, j) \<Rightarrow> (j - i, p))"
proof (cases "firstAcceptance frequency")
  case None
  then show ?thesis
    by (simp add: inferScaleSize_def periodLoop_find firstAcceptance_def searchOrder_def)
next
  case (Some c)
  obtain p i j where c: "c = (p, i, j)" by (cases c) auto
  from firstAcceptance_Some [of frequency p i j] Some c have "i < j" by simp
  with Some c show ?thesis
    by (simp add: inferScaleSize_def periodLoop_find firstAcceptance_def searchOrder_def)
qed

subsection \<open>The fill loops\<close>

lemma length_periodicFill [simp]:
  "length (periodicFill frequency len scaleSize period i) = length frequency"
proof (induction frequency len scaleSize period i rule: periodicFill.induct)
  case (1 frequency len scaleSize period i)
  then show ?case by (subst periodicFill.simps) simp
qed

lemma periodicFill_below:
  "0 \<le> i \<Longrightarrow> k < nat i \<Longrightarrow> periodicFill frequency len scaleSize period i ! k = frequency ! k"
proof (induction frequency len scaleSize period i rule: periodicFill.induct)
  case (1 frequency len scaleSize period i)
  show ?case
  proof (cases "i < len")
    case True
    with 1 show ?thesis by (subst periodicFill.simps) simp
  next
    case False
    then show ?thesis by (subst periodicFill.simps) simp
  qed
qed


lemma length_flatFill [simp]: "length (flatFill frequency len i) = length frequency"
proof (induction frequency len i rule: flatFill.induct)
  case (1 frequency len i)
  then show ?case by (subst flatFill.simps) simp
qed

lemma flatFill_below:
  "0 \<le> i \<Longrightarrow> k < nat i \<Longrightarrow> flatFill frequency len i ! k = frequency ! k"
proof (induction frequency len i rule: flatFill.induct)
  case (1 frequency len i)
  show ?case
  proof (cases "i < len")
    case True
    with 1 show ?thesis by (subst flatFill.simps) simp
  next
    case False
    then show ?thesis by (subst flatFill.simps) simp
  qed
qed


subsection \<open>Skipping and hitting, and the sample buffers\<close>

lemma matchLoop_unfold:
  "matchLoop frequency period i (real_of_int period * frequency ! nat i) j =
     (if j \<le> 126 then
        if accepted frequency (period, i, j) then Some (j - i)
        else matchLoop frequency period i (real_of_int period * frequency ! nat i) (j + 1)
      else None)"
  by (subst matchLoop.simps) (simp add: accepted_def)

lemma matchLoop_skip:
  assumes "j \<le> j'"
    and "\<And>k. j \<le> k \<Longrightarrow> k < j' \<Longrightarrow> \<not> accepted frequency (period, i, k)"
    and "j' \<le> 127"
  shows "matchLoop frequency period i (real_of_int period * frequency ! nat i) j =
         matchLoop frequency period i (real_of_int period * frequency ! nat i) j'"
  using assms
proof (induction frequency period i "real_of_int period * frequency ! nat i" j rule: matchLoop.induct)
  case (1 frequency period i j)
  show ?case
  proof (cases "j = j'")
    case True
    then show ?thesis by simp
  next
    case False
    with 1(2) 1(4) have lt: "j < j'" "j \<le> 126" by simp_all
    with 1(3) [of j] have no: "\<not> accepted frequency (period, i, j)"
      by simp
    then have no': "\<not> (\<bar>frequency ! nat j - real_of_int period * frequency ! nat i\<bar> < 1 / 10 ^ 6 \<and>
        \<bar>frequency ! nat (j + 1) - real_of_int period * frequency ! nat (i + 1)\<bar> < 1 / 10 ^ 6)"
      by (simp add: accepted_def)
    have "matchLoop frequency period i (real_of_int period * frequency ! nat i) j =
          matchLoop frequency period i (real_of_int period * frequency ! nat i) (j + 1)"
      using lt no by (subst matchLoop_unfold) simp
    also have "\<dots> = matchLoop frequency period i (real_of_int period * frequency ! nat i) j'"
      using lt 1(3) 1(4) by (intro 1(1) [OF lt(2) no']) auto
    finally show ?thesis .
  qed
qed

lemma matchLoop_hit:
  assumes "j \<le> 126" and "accepted frequency (period, i, j)"
  shows "matchLoop frequency period i (real_of_int period * frequency ! nat i) j = Some (j - i)"
  using assms by (subst matchLoop_unfold) simp

lemma baseLoop_skip:
  assumes "i \<le> i'" and "\<And>k. i \<le> k \<Longrightarrow> k < i' \<Longrightarrow> frequency ! nat k \<le> 10" and "i' \<le> 127"
  shows "baseLoop frequency period i = baseLoop frequency period i'"
  using assms
proof (induction frequency period i rule: baseLoop.induct)
  case (1 frequency period i)
  show ?case
  proof (cases "i = i'")
    case True
    then show ?thesis by simp
  next
    case False
    with 1(3) 1(5) have lt: "i < i'" "i \<le> 126" by simp_all
    with 1(4) [of i] have low: "\<not> frequency ! nat i > 10" by simp
    have "baseLoop frequency period i = baseLoop frequency period (i + 1)"
      using lt low by (subst baseLoop.simps) simp
    also have "\<dots> = baseLoop frequency period i'"
      using lt low 1(4) 1(5) by (intro 1(2)) auto
    finally show ?thesis .
  qed
qed

lemma baseLoop_hit:
  assumes "i \<le> 126" and "frequency ! nat i > 10"
    and "matchLoop frequency period i (real_of_int period * frequency ! nat i) i = Some s"
  shows "baseLoop frequency period i = Some s"
  using assms by (subst baseLoop.simps) simp

lemma inferScaleSize_hit:
  assumes "baseLoop frequency 2 0 = Some s" and "s \<noteq> 0"
  shows "inferScaleSize frequency = (s, 2)"
  using assms by (simp add: inferScaleSize_def periodLoop.simps [of frequency 2])

lemma inferScaleSize_low:
  assumes "\<And>k. 0 \<le> k \<Longrightarrow> k \<le> 126 \<Longrightarrow> frequency ! nat k \<le> 10"
  shows "inferScaleSize frequency = (- 1, - 1)"
proof -
  from assms have "\<forall>k\<in>{0..126}. \<not> 10 < frequency ! nat k"
    by (auto simp: not_less)
  then have "searchOrder frequency = []"
    by (auto simp: searchOrder_def)
  then show ?thesis
    by (simp add: inferScaleSize_search firstAcceptance_def)
qed

lemma octaveDemo_infer: "inferScaleSize octaveDemo = (2, 2)"
proof -
  have "baseLoop octaveDemo 2 0 = baseLoop octaveDemo 2 124"
  proof (rule baseLoop_skip)
    fix k :: int assume "0 \<le> k" "k < 124"
    then have "nat k < 124" by simp
    then show "octaveDemo ! nat k \<le> 10" by (simp add: octaveDemo_def nth_append)
  qed simp_all
  also have "\<dots> = Some 2"
  proof (rule baseLoop_hit)
    have "matchLoop octaveDemo 2 124 (real_of_int 2 * octaveDemo ! nat 124) 124 =
          matchLoop octaveDemo 2 124 (real_of_int 2 * octaveDemo ! nat 124) 126"
    proof (rule matchLoop_skip)
      fix k :: int assume "124 \<le> k" "k < 126"
      then have "k = 124 \<or> k = 125" by auto
      then show "\<not> accepted octaveDemo (2, 124, k)"
        by (auto simp: accepted_def octaveDemo_def nth_append)
    qed simp_all
    also have "\<dots> = Some (126 - 124)"
      by (rule matchLoop_hit) (simp_all add: accepted_def octaveDemo_def nth_append)
    finally show "matchLoop octaveDemo 2 124 (real_of_int 2 * octaveDemo ! nat 124) 124 = Some 2"
      by simp
  qed (simp_all add: octaveDemo_def nth_append)
  finally show ?thesis by (simp add: inferScaleSize_hit)
qed

lemma flatDemo_infer: "inferScaleSize flatDemo = (- 1, - 1)"
proof (rule inferScaleSize_low)
  fix k :: int assume "0 \<le> k" "k \<le> 126"
  then have "nat k < 128" by simp
  then show "flatDemo ! nat k \<le> 10" by (simp add: flatDemo_def nth_append)
qed

subsection \<open>The shapes of the result\<close>

lemma inferScaleSize_cases:
  obtains (notFound) "firstAcceptance frequency = None" "inferScaleSize frequency = (- 1, - 1)"
  | (found) p i j where "firstAcceptance frequency = Some (p, i, j)"
      "inferScaleSize frequency = (j - i, p)" "2 \<le> p" "p \<le> 100" "0 \<le> i" "i < j" "j \<le> 126"
proof (cases "firstAcceptance frequency")
  case None
  then show ?thesis using notFound by (simp add: inferScaleSize_search)
next
  case (Some c)
  obtain p i j where c: "c = (p, i, j)" by (cases c) auto
  with Some firstAcceptance_Some [of frequency p i j] show ?thesis
    using found [of p i j] by (simp add: inferScaleSize_search)
qed

lemma inferScaleSize_range:
  assumes "inferScaleSize frequency = (s, p)" and "s \<noteq> - 1"
  shows "1 \<le> s \<and> s \<le> 126 \<and> 2 \<le> p \<and> p \<le> 100"
  using assms by (cases frequency rule: inferScaleSize_cases) auto

lemma extendFrequencies_found:
  assumes "inferScaleSize frequency = (s, p)" and "s \<noteq> - 1"
  shows "extendFrequencies frequency len = Inr (periodicFill frequency len s p 128)"
  using assms inferScaleSize_range [OF assms] by (simp add: extendFrequencies_def)

lemma extendFrequencies_notFound:
  assumes "inferScaleSize frequency = (- 1, - 1)"
  shows "extendFrequencies frequency len = Inr (flatFill frequency len 128)"
  using assms by (simp add: extendFrequencies_def)

lemma extendFrequencies_cases:
  obtains (flat) "inferScaleSize frequency = (- 1, - 1)"
      "extendFrequencies frequency len = Inr (flatFill frequency len 128)"
  | (periodic) s p where "inferScaleSize frequency = (s, p)" "1 \<le> s" "s \<le> 126"
      "extendFrequencies frequency len = Inr (periodicFill frequency len s p 128)"
proof (cases "inferScaleSize frequency")
  case (Pair s p)
  show ?thesis
  proof (cases "s = - 1")
    case True
    with Pair have "inferScaleSize frequency = (- 1, - 1)"
      by (cases frequency rule: inferScaleSize_cases) auto
    then show ?thesis using flat extendFrequencies_notFound by simp
  next
    case False
    with Pair inferScaleSize_range [of frequency s p] extendFrequencies_found [of frequency s p len]
    show ?thesis using periodic [of s p] by simp
  qed
qed

lemma take_eqI:
  assumes "length xs = length ys" and "\<And>i. i < n \<Longrightarrow> xs ! i = ys ! i"
  shows "take n xs = take n ys"
  using assms by (intro nth_equalityI) simp_all


subsection \<open>Short lengths, and the entries the search reads\<close>

lemma periodicFill_done: "len \<le> i \<Longrightarrow> periodicFill frequency len scaleSize period i = frequency"
  by (subst periodicFill.simps) simp

lemma flatFill_done: "len \<le> i \<Longrightarrow> flatFill frequency len i = frequency"
  by (subst flatFill.simps) simp

lemma extendFrequencies_short:
  assumes "len \<le> 128"
  shows "extendFrequencies frequency len = Inr frequency"
  using assms
  by (cases frequency len rule: extendFrequencies_cases) (simp_all add: periodicFill_done flatFill_done)

lemma take_nth_eq:
  assumes "take n xs = take n ys" and "k < n"
  shows "xs ! k = ys ! k"
proof -
  from assms(2) have "xs ! k = take n xs ! k" "ys ! k = take n ys ! k" by simp_all
  with assms(1) show ?thesis by simp
qed

lemma searchOrder_cong:
  assumes "take 128 xs = take 128 ys"
  shows "searchOrder xs = searchOrder ys"
proof -
  have "xs ! nat i = ys ! nat i" if "i \<in> set [0..126]" for i
    using that by (intro take_nth_eq [OF assms]) auto
  then have eq: "map (\<lambda>i. if xs ! nat i > 10 then map (\<lambda>j. (p, i, j)) [i..126] else []) [0..126] =
             map (\<lambda>i. if ys ! nat i > 10 then map (\<lambda>j. (p, i, j)) [i..126] else []) [0..126]" for p
    by (intro map_cong refl) simp
  show ?thesis unfolding searchOrder_def by (simp only: eq)
qed

lemma accepted_cong:
  assumes "take 128 xs = take 128 ys" and "(p, i, j) \<in> set (searchOrder ys)"
  shows "accepted xs (p, i, j) = accepted ys (p, i, j)"
proof -
  from assms(2) have r: "0 \<le> i" "i \<le> j" "j \<le> 126" by (simp_all add: searchOrder_set)
  then have "xs ! nat i = ys ! nat i" "xs ! nat j = ys ! nat j"
    "xs ! nat (i + 1) = ys ! nat (i + 1)" "xs ! nat (j + 1) = ys ! nat (j + 1)"
    by (auto intro!: take_nth_eq [OF assms(1)])
  then show ?thesis by (simp add: accepted_def)
qed

subsection \<open>Where the match loop stops\<close>

lemma matchLoop_Some_range:
  assumes "matchLoop frequency period i (real_of_int period * frequency ! nat i) j = Some s"
  shows "\<exists>j'. j \<le> j' \<and> j' \<le> 126 \<and> s = j' - i \<and> accepted frequency (period, i, j')"
proof -
  from assms obtain c where c: "find (accepted frequency) (map (\<lambda>j. (period, i, j)) [j..126]) = Some c"
    and s: "s = (\<lambda>(p, i, j). j - i) c"
    by (auto simp: matchLoop_find)
  from find_SomeD [OF c] have "c \<in> set (map (\<lambda>j. (period, i, j)) [j..126])" "accepted frequency c"
    by simp_all
  with s show ?thesis by auto
qed

lemma matchLoop_stops_at:
  "matchLoop frequency period i (real_of_int period * frequency ! nat i) j = Some (j - i) \<longleftrightarrow>
     j \<le> 126 \<and> accepted frequency (period, i, j)"
proof
  assume stop: "matchLoop frequency period i (real_of_int period * frequency ! nat i) j = Some (j - i)"
  from matchLoop_Some_range [OF stop] have j: "j \<le> 126" by auto
  have "accepted frequency (period, i, j)"
  proof (rule ccontr)
    assume no: "\<not> accepted frequency (period, i, j)"
    with j stop have "matchLoop frequency period i (real_of_int period * frequency ! nat i) (j + 1) = Some (j - i)"
      by (subst (asm) matchLoop_unfold) simp
    from matchLoop_Some_range [OF this] show False by auto
  qed
  with j show "j \<le> 126 \<and> accepted frequency (period, i, j)" by simp
next
  assume "j \<le> 126 \<and> accepted frequency (period, i, j)"
  then show "matchLoop frequency period i (real_of_int period * frequency ! nat i) j = Some (j - i)"
    by (simp add: matchLoop_hit)
qed


lemma periodLoop_zero:
  assumes "fst (periodLoop frequency 2) = 0"
  shows "periodLoop frequency 2 = (0, 101) \<and> firstAcceptance frequency = None"
proof (cases "firstAcceptance frequency")
  case None
  then show ?thesis
    by (simp add: periodLoop_find firstAcceptance_def searchOrder_def)
next
  case (Some c)
  obtain p i j where c: "c = (p, i, j)" by (cases c) auto
  from firstAcceptance_Some [of frequency p i j] Some c have "i < j" by simp
  with Some c assms show ?thesis
    by (simp add: periodLoop_find firstAcceptance_def searchOrder_def)
qed

lemma periodLoop_notFound:
  assumes "inferScaleSize frequency = (- 1, - 1)"
  shows "periodLoop frequency 2 = (0, 101)"
proof -
  from assms have "firstAcceptance frequency = None"
    by (cases frequency rule: inferScaleSize_cases) auto
  then show ?thesis
    by (simp add: periodLoop_find firstAcceptance_def searchOrder_def)
qed

subsection \<open>The tolerance buffers\<close>






subsection \<open>Equal temperament\<close>






section \<open>The claims\<close>

subsection \<open>Claims about the search\<close>








text \<open>
  C9. The result of \<open>inferScaleSize\<close> is a function of the first 128 entries of the
  buffer alone: two buffers that agree there give the same scale size and period.
\<close>
theorem inferScaleSize_deterministic:
  assumes "take 128 xs = take 128 ys"
  shows "inferScaleSize xs = inferScaleSize ys"
proof -
  have "find (accepted xs) (searchOrder xs) = find (accepted ys) (searchOrder ys)"
  proof (rule find_cong)
    show "searchOrder xs = searchOrder ys" using assms by (rule searchOrder_cong)
  next
    fix c assume mem: "c \<in> set (searchOrder ys)"
    obtain p i j where c: "c = (p, i, j)" by (cases c) auto
    from assms mem show "accepted xs c = accepted ys c"
      unfolding c by (rule accepted_cong)
  qed
  then show ?thesis by (simp add: inferScaleSize_search firstAcceptance_def)
qed

theorem inferScaleSize_deterministic_witness:
  "inferScaleSize (replicate 124 1 @ [20, 30, 40, 60, 7, 7, 7]) = (2, 2)"
proof -
  have "take 128 (replicate 124 1 @ [20, 30, 40, 60, 7, 7, 7]) = take 128 octaveDemo"
    by (simp add: octaveDemo_def)
  from inferScaleSize_deterministic [OF this] show ?thesis by (simp add: octaveDemo_infer)
qed

text \<open>
  C10. The result is either \<open>(-1, -1)\<close> or a scale size from 1 to 126 with a period
  from 2 to 100. A base above 10 Hz is never accepted as its own match: with a period of
  at least 2 it differs from its target by more than 10, so the match loop started at the
  base does not stop there. The internal \<open>scaleSize = 0\<close> at the label
  \<^verbatim>\<open>end\<close> therefore arises only from the search running to its end, with
  \<open>period = 101\<close>.
\<close>
theorem inferScaleSize_shapes:
  "(inferScaleSize frequency = (- 1, - 1) \<or>
    (\<exists>s p. inferScaleSize frequency = (s, p) \<and> 1 \<le> s \<and> s \<le> 126 \<and> 2 \<le> p \<and> p \<le> 100)) \<and>
   (frequency ! nat i > 10 \<and> 2 \<le> period \<longrightarrow>
      10 < \<bar>frequency ! nat i - real_of_int period * frequency ! nat i\<bar> \<and>
      matchLoop frequency period i (real_of_int period * frequency ! nat i) i \<noteq> Some 0) \<and>
   (fst (periodLoop frequency 2) = 0 \<longrightarrow> periodLoop frequency 2 = (0, 101))"
proof (intro conjI impI)
  show "inferScaleSize frequency = (- 1, - 1) \<or>
    (\<exists>s p. inferScaleSize frequency = (s, p) \<and> 1 \<le> s \<and> s \<le> 126 \<and> 2 \<le> p \<and> p \<le> 100)"
    by (cases frequency rule: inferScaleSize_cases) auto
next
  assume a: "frequency ! nat i > 10 \<and> 2 \<le> period"
  then show "10 < \<bar>frequency ! nat i - real_of_int period * frequency ! nat i\<bar>"
    using self_deviation [of frequency i period] by blast
next
  assume a: "frequency ! nat i > 10 \<and> 2 \<le> period"
  then have "\<not> accepted frequency (period, i, i)"
    using no_self_match [of frequency i period] by (simp add: accepted_def)
  then show "matchLoop frequency period i (real_of_int period * frequency ! nat i) i \<noteq> Some 0"
    using matchLoop_stops_at [of frequency period i i] by simp
next
  assume "fst (periodLoop frequency 2) = 0"
  then show "periodLoop frequency 2 = (0, 101)" by (simp add: periodLoop_zero)
qed

theorem inferScaleSize_shapes_witness:
  "inferScaleSize octaveDemo = (2, 2) \<and>
   matchLoop octaveDemo 2 124 (real_of_int 2 * octaveDemo ! nat 124) 124 \<noteq> Some 0 \<and>
   periodLoop flatDemo 2 = (0, 101)"
proof (intro conjI)
  show "inferScaleSize octaveDemo = (2, 2)" by (rule octaveDemo_infer)
  have "octaveDemo ! nat 124 > 10 \<and> (2::int) \<le> 2" by (simp add: octaveDemo_def nth_append)
  with inferScaleSize_shapes [of octaveDemo 124 2]
  show "matchLoop octaveDemo 2 124 (real_of_int 2 * octaveDemo ! nat 124) 124 \<noteq> Some 0" by blast
  have "fst (periodLoop flatDemo 2) = 0"
    using flatDemo_infer by (simp add: periodLoop_notFound)
  with inferScaleSize_shapes [of flatDemo] show "periodLoop flatDemo 2 = (0, 101)" by blast
qed

subsection \<open>Claims about the extension\<close>





text \<open>
  C4. The extension always returns a table, of the length of the buffer, whose first 128
  entries are those of the input; this holds for every requested length, in particular
  for every one that is at least 128.
\<close>
theorem extendFrequencies_frame:
  "\<exists>table. extendFrequencies frequency len = Inr table \<and>
     length table = length frequency \<and> take 128 table = take 128 frequency"
proof (cases frequency len rule: extendFrequencies_cases)
  case flat
  have "take 128 (flatFill frequency len 128) = take 128 frequency"
    by (rule take_eqI) (simp_all add: flatFill_below)
  with flat show ?thesis by simp
next
  case (periodic s p)
  have "take 128 (periodicFill frequency len s p 128) = take 128 frequency"
    by (rule take_eqI) (simp_all add: periodicFill_below)
  with periodic show ?thesis by simp
qed

theorem extendFrequencies_frame_witness:
  "\<exists>table. extendFrequencies octaveDemo 130 = Inr table \<and> length table = 130 \<and>
     take 128 table = replicate 124 1 @ [20, 30, 40, 60]"
  using extendFrequencies_frame [of octaveDemo 130] by (simp add: octaveDemo_def)

text \<open>
  C5. A found scale size lies between 1 and 128, and the assertion
  \<^verbatim>\<open>assert(scaleSize <= 128)\<close> of \<open>extendFrequencies\<close> never fails.
\<close>
theorem scaleSize_within_assert:
  "(inferScaleSize frequency = (s, p) \<and> s \<noteq> - 1 \<longrightarrow> 1 \<le> s \<and> s \<le> 128) \<and>
   extendFrequencies frequency len \<noteq> Inl AssertionFailed"
proof
  show "inferScaleSize frequency = (s, p) \<and> s \<noteq> - 1 \<longrightarrow> 1 \<le> s \<and> s \<le> 128"
    using inferScaleSize_range [of frequency s p] by auto
  show "extendFrequencies frequency len \<noteq> Inl AssertionFailed"
    by (cases frequency len rule: extendFrequencies_cases) simp_all
qed

theorem scaleSize_within_assert_witness:
  "inferScaleSize octaveDemo = (2, 2) \<and> extendFrequencies octaveDemo 130 \<noteq> Inl AssertionFailed"
  using scaleSize_within_assert [of octaveDemo 2 2 130] octaveDemo_infer by simp

text \<open>
  C6, as stated, fails for \<open>extendFrequencies\<close>: it has no check of the length, and
  with the length 127 it returns the buffer as it was.
\<close>
theorem extendFrequencies_short_counterexample:
  "extendFrequencies octaveDemo 127 = Inr octaveDemo"
  by (rule extendFrequencies_short) simp

text \<open>
  C6, amended. For every length below 128, \<open>getFrequencies\<close> fails its assertion, and
  \<open>extendFrequencies\<close>, which has no check of the length, returns normally with the
  buffer unchanged.
\<close>
theorem length_assert_in_facade:
  assumes "len < 128"
  shows "getFrequencies noteToFrequency frequency len = Inl AssertionFailed \<and>
         extendFrequencies frequency len = Inr frequency"
  using assms by (simp add: getFrequencies_def extendFrequencies_short)

theorem length_assert_in_facade_witness:
  "getFrequencies (\<lambda>i. 440) flatDemo 100 = Inl AssertionFailed \<and>
   extendFrequencies flatDemo 100 = Inr flatDemo"
  using length_assert_in_facade [of 100 "\<lambda>i. 440" flatDemo] by simp


end
